theory Spec2Isabelle
  imports Main
begin

section \<open>Python strings\<close>

text \<open>
  A Python \<open>str\<close> is modelled as a \<open>string\<close>; a \<open>char\<close> stands for a code point below
  256. \<open>isspace\<close> is the whitespace test shared by \<open>str.strip()\<close> and by \<open>\s\<close> of the
  \<open>re\<close> module on that range: the code points 9-13, 28-31, 32, 133 and 160.
\<close>

definition nl :: char where
  "nl = CHR 0x0A"

definition isspace :: "char \<Rightarrow> bool" where
  "isspace c = (c \<in> {CHR 0x09, CHR 0x0A, CHR 0x0B, CHR 0x0C, CHR 0x0D, CHR 0x1C,
                      CHR 0x1D, CHR 0x1E, CHR 0x1F, CHR 0x20, CHR 0x85, CHR 0xA0})"

text \<open>\<open>s.strip()\<close>: whitespace removed at both ends.\<close>

definition strip :: "string \<Rightarrow> string" where
  "strip s = rev (dropWhile isspace (rev (dropWhile isspace s)))"

text \<open>
  \<open>s.upper()\<close>. Only the letters a-z are changed. Python also changes letters beyond
  ASCII, but none of them becomes R, S, T or U on the modelled range, and the result of
  \<open>upper\<close> is only ever compared with those four keys.
\<close>

definition upper_char :: "char \<Rightarrow> char" where
  "upper_char c =
     (case map_of (zip ''abcdefghijklmnopqrstuvwxyz'' ''ABCDEFGHIJKLMNOPQRSTUVWXYZ'') c of
        Some u \<Rightarrow> u
      | None \<Rightarrow> c)"

definition upper :: "string \<Rightarrow> string" where
  "upper s = map upper_char s"

text \<open>\<open>s.startswith(p)\<close>.\<close>

definition startswith :: "string \<Rightarrow> string \<Rightarrow> bool" where
  "startswith s p = (take (length p) s = p)"

text \<open>\<open>s.split(d)\<close> for a separator \<open>d\<close> of one character: never an empty list.\<close>

fun split_on :: "char \<Rightarrow> string \<Rightarrow> string list" where
  "split_on d [] = [[]]"
| "split_on d (c # cs) =
     (if c = d then [] # split_on d cs
      else (case split_on d cs of
              [] \<Rightarrow> [[c]]
            | l # ls \<Rightarrow> (c # l) # ls))"

text \<open>
  \<open>s.split('\n\n')\<close>: the occurrences of the separator are found from the left and do
  not overlap.
\<close>

fun split_blank :: "string \<Rightarrow> string list" where
  "split_blank (a # b # cs) =
     (if a = nl \<and> b = nl then [] # split_blank cs
      else (case split_blank (b # cs) of
              [] \<Rightarrow> [[a]]
            | p # ps \<Rightarrow> (a # p) # ps))"
| "split_blank [a] = [[a]]"
| "split_blank [] = [[]]"

text \<open>\<open>sep.join(xs)\<close>.\<close>

fun join :: "string \<Rightarrow> string list \<Rightarrow> string" where
  "join sep [] = []"
| "join sep [x] = x"
| "join sep (x # y # ys) = x @ sep @ join sep (y # ys)"

section \<open>The registries\<close>

text \<open>\<open>GOOGLE_SPEAKERS\<close>: a dictionary from the four speaker keys to their description.\<close>

record speaker_info =
  name :: string
  personality :: string
  description :: string

definition GOOGLE_SPEAKERS :: "(string \<times> speaker_info) list" where
  "GOOGLE_SPEAKERS =
     [(''R'', \<lparr>name = ''Speaker R'', personality = ''warm_engaging'',
              description = ''Friendly, conversational voice suitable for hosts''\<rparr>),
      (''S'', \<lparr>name = ''Speaker S'', personality = ''analytical'',
              description = ''Clear, informative voice suitable for experts''\<rparr>),
      (''T'', \<lparr>name = ''Speaker T'', personality = ''energetic'',
              description = ''Dynamic voice suitable for enthusiastic commentary''\<rparr>),
      (''U'', \<lparr>name = ''Speaker U'', personality = ''contemplative'',
              description = ''Thoughtful voice suitable for deeper discussions''\<rparr>)]"

text \<open>
  \<open>PODCAST_FORMATS\<close>: every entry has a description and its speakers; \<open>style\<close> and
  \<open>roles\<close> are present in some entries only.
\<close>

record format_info =
  format_description :: string
  speakers :: "string list"
  style :: "string option"
  roles :: "(string \<times> string) list option"

definition PODCAST_FORMATS :: "(string \<times> format_info) list" where
  "PODCAST_FORMATS =
     [(''dialogue'',
         \<lparr>format_description = ''Two-person conversational format'',
          speakers = [''R'', ''S''],
          style = Some ''Natural back-and-forth discussion'',
          roles = None\<rparr>),
      (''interview'',
         \<lparr>format_description = ''Host interviewing an expert'',
          speakers = [''R'', ''S''],
          style = None,
          roles = Some [(''R'', ''Host''), (''S'', ''Expert'')]\<rparr>),
      (''roundtable'',
         \<lparr>format_description = ''Multi-person discussion (up to 4 speakers)'',
          speakers = [''R'', ''S'', ''T'', ''U''],
          style = Some ''Collaborative discussion with multiple viewpoints'',
          roles = None\<rparr>),
      (''storytelling'',
         \<lparr>format_description = ''Narrative with character voices'',
          speakers = [''R'', ''S'', ''T''],
          style = None,
          roles = Some [(''R'', ''Narrator''), (''S'', ''Character 1''),
                        (''T'', ''Character 2'')]\<rparr>),
      (''educational'',
         \<lparr>format_description = ''Teaching format with Q&A'',
          speakers = [''R'', ''S''],
          style = None,
          roles = Some [(''R'', ''Teacher''), (''S'', ''Student'')]\<rparr>),
      (''debate'',
         \<lparr>format_description = ''Point-counterpoint discussion'',
          speakers = [''R'', ''S'', ''T''],
          style = None,
          roles = Some [(''R'', ''Moderator''), (''S'', ''Advocate''),
                        (''T'', ''Opponent'')]\<rparr>)]"

section \<open>Turn generation\<close>

text \<open>A turn is the dictionary \<open>{"speaker": ..., "text": ...}\<close>.\<close>

record turn =
  speaker :: string
  text' :: string

text \<open>
  \<open>additional_context\<close> is an optional dictionary. Its one interpreted key is
  \<open>key_points\<close>, bound to a sequence of strings; the dictionary is an association list
  from keys to sequences of strings, and \<open>None\<close> is the absent argument.
\<close>

type_synonym context_dict = "(string \<times> string list) list"

datatype py_error = ZeroDivisionError | KeyError string

definition content_prompts :: "string list" where
  "content_prompts =
     [''What's the most important thing people should understand?'',
      ''Can you give us a specific example?'',
      ''How does this impact our daily lives?'',
      ''What are the common misconceptions?'',
      ''What does the future hold?'',
      ''What challenges do we face?'',
      ''Are there any surprising aspects?'',
      ''How can people get involved?'',
      ''What's your personal experience with this?'',
      ''What advice would you give?'']"

definition responses :: "string list" where
  "responses =
     [''That's a great question. Let me explain...'',
      ''Actually, it's quite fascinating when you look at it closely...'',
      ''People often don't realize that...'',
      ''From my perspective, the key is...'',
      ''What's really interesting is...'',
      ''The data shows us that...'',
      ''In my experience...'',
      ''Here's what I've learned...'',
      ''The breakthrough came when...'',
      ''This reminds me of...'']"

definition reactions :: "string list" where
  "reactions =
     [''I'd like to add to that point...'',
      ''That's interesting, but have you considered...'',
      ''Building on what was just said...'',
      ''From another angle...'']"

text \<open>
  The opening (lines 110-141 of the source): the branch is chosen by the format name
  as given, the speakers come from the resolved format.
\<close>

definition opening_turns :: "string \<Rightarrow> string \<Rightarrow> string list \<Rightarrow> turn list" where
  "opening_turns topic format_type spk =
     (if format_type = ''interview'' then
        [\<lparr>speaker = ''R'',
          text' = ''Welcome to today's discussion about '' @ topic @
                ''. I'm here with an expert who's going to share fascinating insights with us.''\<rparr>,
         \<lparr>speaker = ''S'',
          text' = ''Thank you for having me! I'm excited to dive into this topic with your listeners.''\<rparr>]
      else if format_type = ''debate'' then
        [\<lparr>speaker = ''R'',
          text' = ''Welcome to our debate on '' @ topic @
                ''. We have two distinguished speakers with opposing viewpoints.''\<rparr>,
         \<lparr>speaker = ''S'',
          text' = ''I'm here to argue for the positive aspects and potential benefits.''\<rparr>,
         \<lparr>speaker = ''T'',
          text' = ''And I'll be presenting the concerns and challenges we need to consider.''\<rparr>]
      else
        [\<lparr>speaker = spk ! 0, text' = ''Let's explore '' @ topic @ '' together.''\<rparr>] @
        (if length spk > 1 then
           [\<lparr>speaker = spk ! 1,
             text' = ''Absolutely! This is such a relevant topic right now.''\<rparr>]
         else []))"

text \<open>
  The response text of iteration \<open>i\<close> (lines 181-188). The test of the source is
  \<open>additional_context and "key_points" in additional_context\<close>: it asks whether the key
  is present, not whether its sequence has an element, and \<open>i % len(...)\<close> raises
  \<open>ZeroDivisionError\<close> when the sequence is empty.
\<close>

definition response_text :: "string \<Rightarrow> context_dict option \<Rightarrow> nat \<Rightarrow> py_error + string" where
  "response_text topic additional_context i =
     (let response_intro = responses ! (i mod length responses) in
      case additional_context of
        None \<Rightarrow> Inr (response_intro @ '' '' @ topic @ '' has many dimensions we need to consider.'')
      | Some d \<Rightarrow>
          (if d \<noteq> [] \<and> map_of d ''key_points'' \<noteq> None then
             (let key_points = the (map_of d ''key_points'') in
              if length key_points = 0 then Inl ZeroDivisionError
              else
                (let point = key_points ! (i mod length key_points) in
                 Inr (response_intro @ '' When it comes to '' @ point @ '' in '' @ topic @
                      '', we're seeing significant developments.'')))
           else Inr (response_intro @ '' '' @ topic @ '' has many dimensions we need to consider.'')))"

text \<open>The turns appended by iteration \<open>i\<close> of the main loop (lines 171-207).\<close>

definition iteration :: "string \<Rightarrow> string list \<Rightarrow> context_dict option \<Rightarrow> nat \<Rightarrow> py_error + turn list" where
  "iteration topic spk additional_context i =
     (let question = \<lparr>speaker = spk ! 0, text' = content_prompts ! (i mod length content_prompts)\<rparr>;
          response_speaker = spk ! (1 mod length spk)
      in case response_text topic additional_context i of
           Inl e \<Rightarrow> Inl e
         | Inr response \<Rightarrow>
             Inr ([question, \<lparr>speaker = response_speaker, text' = response\<rparr>] @
                  (if length spk > 2 \<and> i mod 3 = 0 then
                     [\<lparr>speaker = spk ! (2 mod length spk),
                       text' = reactions ! (i mod length reactions)\<rparr>]
                   else [])))"

text \<open>
  The \<open>for\<close> loop over \<open>range(...)\<close>: the list of turns is the state, and an exception
  raised in an iteration ends the call.
\<close>

fun main_loop :: "string \<Rightarrow> string list \<Rightarrow> context_dict option \<Rightarrow> nat list \<Rightarrow> turn list
                  \<Rightarrow> py_error + turn list" where
  "main_loop topic spk additional_context [] turns = Inr turns"
| "main_loop topic spk additional_context (i # rest) turns =
     (case iteration topic spk additional_context i of
        Inl e \<Rightarrow> Inl e
      | Inr new \<Rightarrow> main_loop topic spk additional_context rest (turns @ new))"

definition closing_turns :: "string \<Rightarrow> string list \<Rightarrow> turn list" where
  "closing_turns topic spk =
     [\<lparr>speaker = spk ! 0,
       text' = ''This has been an enlightening discussion about '' @ topic @
             ''. Any final thoughts?''\<rparr>] @
     (if length spk > 1 then
        [\<lparr>speaker = spk ! 1,
          text' = ''The key takeaway is to stay informed and engaged with these developments.''\<rparr>]
      else []) @
     [\<lparr>speaker = spk ! 0, text' = ''Thank you for joining us today. Until next time!''\<rparr>]"

text \<open>
  \<open>PODCAST_FORMATS.get(format_type, PODCAST_FORMATS["dialogue"])\<close>. Every entry of the
  table has at least two speakers (\<open>catalog_speakers\<close> below), so that the indices
  \<open>0\<close>, \<open>1\<close>, \<open>1 % len(speakers)\<close> and \<open>2 % len(speakers)\<close> are in range.
\<close>

definition resolve_format :: "string \<Rightarrow> format_info" where
  "resolve_format format_type =
     (case map_of PODCAST_FORMATS format_type of
        Some f \<Rightarrow> f
      | None \<Rightarrow> the (map_of PODCAST_FORMATS ''dialogue''))"

definition generate_dialogue_turns ::
  "string \<Rightarrow> string \<Rightarrow> int \<Rightarrow> context_dict option \<Rightarrow> py_error + turn list" where
  "generate_dialogue_turns topic format_type duration_minutes additional_context =
     (let format = resolve_format format_type;
          spk = speakers format;
          num_turns = duration_minutes * 2;
          n = nat (min (num_turns - 4) (int (length content_prompts)))
      in case main_loop topic spk additional_context [0..<n] (opening_turns topic format_type spk) of
           Inl e \<Rightarrow> Inl e
         | Inr turns \<Rightarrow> Inr (turns @ closing_turns topic spk))"

text \<open>Line 554: the sample script, one line \<open>speaker|text\<close> per turn.\<close>

definition serialize :: "turn list \<Rightarrow> string" where
  "serialize turns = join [nl] (map (\<lambda>t. speaker t @ ''|'' @ text' t) turns)"

section \<open>Script parsing\<close>

text \<open>
  The pattern \<open>^([RSTU]):\s*(.+)$\<close> of the colon tier, applied to a line. A line is a
  piece of \<open>split('\n')\<close> and holds no newline, so that \<open>.\<close> matches each of its
  characters and \<open>$\<close> its end only. \<open>\s*\<close> is greedy and gives a character back when
  nothing else is left for \<open>.+\<close>. The result is the pair of the two groups.
\<close>

definition match_colon :: "string \<Rightarrow> (string \<times> string) option" where
  "match_colon line =
     (case line of
        c # d # rest \<Rightarrow>
          (if c \<in> set ''RSTU'' \<and> d = CHR '':'' \<and> rest \<noteq> [] then
             (let r = dropWhile isspace rest in
              Some ([c], if r \<noteq> [] then r else [last rest]))
           else None)
      | _ \<Rightarrow> None)"

text \<open>
  One pass of the loop over the lines (lines 295-324): the turn that is appended, if
  any. \<open>line.split('|', 1)\<close> of a line that holds the separator has two parts, what is
  before its first occurrence and what is after it.
\<close>

definition parse_line :: "string \<Rightarrow> turn option" where
  "parse_line raw =
     (let line = strip raw in
      if line = [] \<or> startswith line ''#'' \<or> startswith line ''//'' then None
      else if CHR ''|'' \<in> set line then
        (let part0 = takeWhile (\<lambda>c. c \<noteq> CHR ''|'') line;
             part1 = tl (dropWhile (\<lambda>c. c \<noteq> CHR ''|'') line);
             spk_id = upper (strip part0);
             t = strip part1
         in if map_of GOOGLE_SPEAKERS spk_id \<noteq> None \<and> t \<noteq> []
            then Some \<lparr>speaker = spk_id, text' = t\<rparr>
            else None)
      else if CHR '':'' \<in> set line then
        (case match_colon line of
           Some (spk_id, g2) \<Rightarrow>
             (let t = strip g2 in
              if t \<noteq> [] then Some \<lparr>speaker = spk_id, text' = t\<rparr> else None)
         | None \<Rightarrow> None)
      else None)"

text \<open>
  The paragraph fallback (lines 327-335): it splits the script as it was given, at
  \<open>'\n\n'\<close>, and numbers the paragraphs that are not blank.
\<close>

definition auto_assign :: "string \<Rightarrow> turn list" where
  "auto_assign script =
     (let paragraphs = map strip (filter (\<lambda>p. strip p \<noteq> []) (split_blank script))
      in map (\<lambda>(i, para). \<lparr>speaker = [''R'', ''S''] ! (i mod 2), text' = para\<rparr>)
             (enumerate 0 paragraphs))"

definition parse_google_script :: "string \<Rightarrow> turn list" where
  "parse_google_script script =
     (let turns = List.map_filter parse_line (split_on nl (strip script))
      in if turns = [] \<and> strip script \<noteq> [] then auto_assign script else turns)"

section \<open>Conversion of a labelled script\<close>

text \<open>The character class \<open>[A-Za-z\s\-\'\.]\<close> of a label.\<close>

definition label_char :: "char \<Rightarrow> bool" where
  "label_char c =
     (c \<in> set ''abcdefghijklmnopqrstuvwxyzABCDEFGHIJKLMNOPQRSTUVWXYZ'' \<or> isspace c \<or>
      c = CHR ''-'' \<or> c = CHR 0x27 \<or> c = CHR ''.'')"

text \<open>
  The two patterns of the converter,
  \<open>^([A-Za-z\s\-\'\.]+?)(?:\s*\[.*?\])?\s*:\s*\<close> for the detection of the labels and the
  same followed by \<open>(.+)$\<close> for the conversion, are matched the way the backtracking
  matcher of \<open>re\<close> tries the alternatives; \<open>need_text\<close> tells the second pattern from the
  first. As above the lines hold no newline.

  \<open>after_colon\<close> is the end of the pattern, \<open>\s*:\s*\<close> or \<open>\s*:\s*(.+)$\<close>: the first
  character that is not whitespace has to be the colon. It returns the second group
  (the empty string for the pattern that has none).
\<close>

definition after_colon :: "bool \<Rightarrow> string \<Rightarrow> string option" where
  "after_colon need_text s =
     (case dropWhile isspace s of
        [] \<Rightarrow> None
      | c # rest \<Rightarrow>
          (if c \<noteq> CHR '':'' then None
           else if \<not> need_text then Some []
           else if rest = [] then None
           else (let r = dropWhile isspace rest in
                 Some (if r \<noteq> [] then r else [last rest]))))"

text \<open>
  \<open>.*?\]\<close> and what follows, from the character after the opening bracket: the lazy
  \<open>.*?\<close> stops at the first closing bracket after which the end of the pattern matches.
\<close>

fun annotation :: "bool \<Rightarrow> string \<Rightarrow> string option" where
  "annotation need_text [] = None"
| "annotation need_text (c # cs) =
     (if c = CHR '']'' then
        (case after_colon need_text cs of
           Some g \<Rightarrow> Some g
         | None \<Rightarrow> annotation need_text cs)
      else annotation need_text cs)"

text \<open>
  \<open>(?:\s*\[.*?\])?\<close> and what follows: the optional group is tried first, then skipped.
\<close>

definition label_end :: "bool \<Rightarrow> string \<Rightarrow> string option" where
  "label_end need_text s =
     (case (case dropWhile isspace s of
              [] \<Rightarrow> None
            | c # cs \<Rightarrow> if c = CHR ''['' then annotation need_text cs else None) of
        Some g \<Rightarrow> Some g
      | None \<Rightarrow> after_colon need_text s)"

text \<open>
  The lazy first group: \<open>acc\<close> is what it holds so far; it takes one more character of
  the class each time the rest of the pattern fails.
\<close>

fun lazy_label :: "bool \<Rightarrow> string \<Rightarrow> string \<Rightarrow> (string \<times> string) option" where
  "lazy_label need_text acc [] =
     (case label_end need_text [] of
        Some g \<Rightarrow> Some (acc, g)
      | None \<Rightarrow> None)"
| "lazy_label need_text acc (c # cs) =
     (case label_end need_text (c # cs) of
        Some g \<Rightarrow> Some (acc, g)
      | None \<Rightarrow> if label_char c then lazy_label need_text (acc @ [c]) cs else None)"

definition match_speaker :: "bool \<Rightarrow> string \<Rightarrow> (string \<times> string) option" where
  "match_speaker need_text line =
     (case line of
        [] \<Rightarrow> None
      | c # cs \<Rightarrow> if label_char c then lazy_label need_text [c] cs else None)"

text \<open>
  The detection loop (lines 720-730): the list \<open>found\<close> is \<open>speakers\<close> of the source,
  the labels in the order of their first appearance. The lines are not stripped here.
\<close>

fun detect_speakers :: "string list \<Rightarrow> string list \<Rightarrow> string list" where
  "detect_speakers [] found = found"
| "detect_speakers (line # rest) found =
     (if CHR '':'' \<in> set line then
        (case match_speaker False line of
           Some (g1, g2) \<Rightarrow>
             (let label = strip g1 in
              if label \<noteq> [] \<and> label \<notin> set found
              then detect_speakers rest (found @ [label])
              else detect_speakers rest found)
         | None \<Rightarrow> detect_speakers rest found)
      else detect_speakers rest found)"

text \<open>
  A dictionary from labels to speaker keys keeps the order in which its keys were
  inserted: an association list with one pair for each key. \<open>dict_set\<close> is
  \<open>d[k] = v\<close>.
\<close>

type_synonym mapping_dict = "(string \<times> string) list"

fun dict_set :: "mapping_dict \<Rightarrow> string \<Rightarrow> string \<Rightarrow> mapping_dict" where
  "dict_set [] k v = [(k, v)]"
| "dict_set (p # ps) k v = (if fst p = k then (k, v) # ps else p # dict_set ps k v)"

definition google_ids :: "string list" where
  "google_ids = [''R'', ''S'', ''T'', ''U'']"

text \<open>Lines 733-735: the first four labels receive the keys, in order.\<close>

definition assign_ids :: "string list \<Rightarrow> mapping_dict \<Rightarrow> mapping_dict" where
  "assign_ids found speaker_mapping =
     fold (\<lambda>(i, label) m. dict_set m label (google_ids ! i)) (enumerate 0 (take 4 found))
          speaker_mapping"

definition auto_mapping :: "string \<Rightarrow> mapping_dict" where
  "auto_mapping script = assign_ids (detect_speakers (split_on nl script) []) []"

text \<open>
  One pass of the conversion loop (lines 741-756): the line that is appended to
  \<open>converted_lines\<close>, if any. \<open>google_id and text\<close> asks for a key that is present and
  not the empty string, and for a text that is not empty.
\<close>

definition convert_line :: "mapping_dict \<Rightarrow> string \<Rightarrow> string option" where
  "convert_line speaker_mapping raw =
     (let line = strip raw in
      if line = [] then None
      else if CHR '':'' \<in> set line then
        (case match_speaker True line of
           Some (g1, g2) \<Rightarrow>
             (let label = strip g1; t = strip g2 in
              case map_of speaker_mapping label of
                Some google_id \<Rightarrow>
                  if google_id \<noteq> [] \<and> t \<noteq> [] then Some (google_id @ ''|'' @ t) else None
              | None \<Rightarrow> None)
         | None \<Rightarrow> None)
      else None)"

definition converted_lines :: "mapping_dict \<Rightarrow> string \<Rightarrow> string list" where
  "converted_lines speaker_mapping script =
     List.map_filter (convert_line speaker_mapping) (split_on nl script)"

text \<open>
  The tool \<open>convert_to_google_format\<close> (lines 707-778). An absent or empty mapping is
  \<open>[]\<close>, an absent or empty script is \<open>[]\<close>. The answer is an error text, or the mapping
  and the converted script that the success text shows; the success text looks every
  value of the mapping up in \<open>GOOGLE_SPEAKERS\<close>, which raises \<open>KeyError\<close> for a value
  that is not one of its keys.
\<close>

datatype response = Error string | Converted mapping_dict string

definition convert_to_google_format :: "string \<Rightarrow> mapping_dict \<Rightarrow> py_error + response" where
  "convert_to_google_format script supplied =
     (if script = [] then Inr (Error ''Error: script parameter is required'')
      else
        (let speaker_mapping = (if supplied = [] then auto_mapping script else supplied);
             out = converted_lines speaker_mapping script
         in if out = [] then
              Inr (Error ''Error: Could not convert script. No valid dialogue found.'')
            else
              (case find (\<lambda>(k, v). map_of GOOGLE_SPEAKERS v = None) speaker_mapping of
                 Some (k, v) \<Rightarrow> Inl (KeyError v)
               | None \<Rightarrow> Inr (Converted speaker_mapping (join [nl] out)))))"

section \<open>Auxiliary notions for the properties\<close>

text \<open>The sequence bound to \<open>key_points\<close>, if the context is given and has the key.\<close>

definition key_points_of :: "context_dict option \<Rightarrow> string list option" where
  "key_points_of additional_context =
     (case additional_context of
        None \<Rightarrow> None
      | Some d \<Rightarrow> map_of d ''key_points'')"

text \<open>
  A text that survives a line of the script: not empty, no newline in it, no
  whitespace at either end.
\<close>

definition clean_text :: "string \<Rightarrow> bool" where
  "clean_text s = (s \<noteq> [] \<and> nl \<notin> set s \<and> \<not> isspace (hd s) \<and> \<not> isspace (last s))"

text \<open>The turns of iteration \<open>i\<close> when it does not raise.\<close>

definition iteration_turns :: "string \<Rightarrow> string list \<Rightarrow> context_dict option \<Rightarrow> nat \<Rightarrow> turn list" where
  "iteration_turns topic spk additional_context i =
     (case iteration topic spk additional_context i of
        Inl e \<Rightarrow> []
      | Inr new \<Rightarrow> new)"

text \<open>
  The anchoring of the colon tier in the words of the specification: one of the four
  letters, then the colon, then whitespace, then a remainder that is not empty after
  trimming.
\<close>

definition colon_anchor_spec :: "string \<Rightarrow> bool" where
  "colon_anchor_spec line =
     (case line of
        c # d # w # rest \<Rightarrow>
          c \<in> set ''RSTU'' \<and> d = CHR '':'' \<and> isspace w \<and> strip rest \<noteq> []
      | _ \<Rightarrow> False)"

section \<open>Properties of the string primitives\<close>

lemma strip_Nil_iff: "strip s = [] \<longleftrightarrow> (\<forall>c\<in>set s. isspace c)"
proof
  assume a: "strip s = []"
  show "\<forall>c\<in>set s. isspace c"
  proof (cases "dropWhile isspace s = []")
    case True
    then show ?thesis by (simp only: dropWhile_eq_Nil_conv)
  next
    case False
    then have "\<not> isspace (hd (dropWhile isspace s))" by (rule hd_dropWhile)
    moreover have "hd (dropWhile isspace s) \<in> set (dropWhile isspace s)"
      using False by (rule hd_in_set)
    moreover from a have "dropWhile isspace (rev (dropWhile isspace s)) = []"
      by (simp only: strip_def rev_is_Nil_conv)
    then have "\<forall>x\<in>set (rev (dropWhile isspace s)). isspace x"
      by (simp only: dropWhile_eq_Nil_conv)
    then have "\<forall>x\<in>set (dropWhile isspace s). isspace x" by (simp only: set_rev)
    ultimately show ?thesis by blast
  qed
next
  assume "\<forall>c\<in>set s. isspace c"
  then have "dropWhile isspace s = []" by (simp only: dropWhile_eq_Nil_conv)
  then show "strip s = []" by (simp only: strip_def rev.simps dropWhile.simps)
qed

lemma rstrip_Cons:
  "\<not> P x \<Longrightarrow> rev (dropWhile P (rev (x # ys))) = x # rev (dropWhile P (rev ys))"
  by (simp add: dropWhile_append3)

lemma strip_Cons: "\<not> isspace c \<Longrightarrow> strip (c # cs) = c # rev (dropWhile isspace (rev cs))"
  by (simp add: strip_def dropWhile_append3)

lemma strip_last:
  assumes "strip s \<noteq> []"
  shows "\<not> isspace (last (strip s))"
proof -
  let ?r = "dropWhile isspace (rev (dropWhile isspace s))"
  from assms have "?r \<noteq> []" by (simp add: strip_def)
  then have "\<not> isspace (hd ?r)" by (rule hd_dropWhile)
  moreover have "last (strip s) = hd ?r" by (simp only: strip_def last_rev)
  ultimately show ?thesis by simp
qed

lemma strip_hd:
  assumes "strip s \<noteq> []"
  shows "\<not> isspace (hd (strip s))"
proof -
  let ?d = "dropWhile isspace s"
  have d: "?d \<noteq> []"
  proof
    assume "?d = []"
    then have "strip s = []" by (simp only: strip_def rev.simps dropWhile.simps)
    with assms show False by contradiction
  qed
  then have h: "\<not> isspace (hd ?d)" by (rule hd_dropWhile)
  from d obtain x ys where e: "?d = x # ys" by (cases ?d) blast+
  with h have nx: "\<not> isspace x" by simp
  have "strip s = rev (dropWhile isspace (rev (x # ys)))" by (simp only: strip_def e)
  also have "\<dots> = x # rev (dropWhile isspace (rev ys))" using nx by (rule rstrip_Cons)
  finally show ?thesis using nx by simp
qed


lemma strip_id:
  assumes "s \<noteq> []" "\<not> isspace (hd s)" "\<not> isspace (last s)"
  shows "strip s = s"
proof -
  from assms(1) obtain x ys where e: "s = x # ys" by (cases s) blast+
  with assms(2) have nx: "\<not> isspace x" by simp
  from assms(1) obtain y zs where r: "rev s = y # zs" by (cases "rev s") simp_all
  then have "last s = y" by (metis last_rev list.sel(1) rev_rev_ident)
  with assms(3) have ny: "\<not> isspace y" by simp
  have "strip s = rev (dropWhile isspace (rev s))" using nx by (simp add: strip_def e)
  also have "\<dots> = rev (rev s)" using ny by (simp only: r dropWhile.simps if_False)
  finally show ?thesis by simp
qed

lemma strip_dropWhile: "strip (dropWhile isspace s) = strip s"
  by (simp only: strip_def dropWhile_idem)

lemma strip_group2:
  assumes "rest \<noteq> []"
  shows "strip (if dropWhile isspace rest \<noteq> [] then dropWhile isspace rest else [last rest])
         = strip rest"
proof (cases "dropWhile isspace rest = []")
  case True
  then have a: "\<forall>c\<in>set rest. isspace c" by (simp only: dropWhile_eq_Nil_conv)
  then have 1: "strip rest = []" by (simp only: strip_Nil_iff)
  from a assms have "isspace (last rest)" by simp
  then have 2: "strip [last rest] = []" by (simp add: strip_Nil_iff)
  show ?thesis by (simp only: True 1 2 if_False not_True_eq_False simp_thms)
next
  case False
  then show ?thesis by (simp add: strip_dropWhile)
qed

lemma stripped_tail:
  assumes "strip raw = c # d # rest" "rest \<noteq> []"
  shows "strip rest \<noteq> []"
proof -
  from assms have "last (strip raw) = last rest" by simp
  moreover have "\<not> isspace (last (strip raw))" using assms(1) by (intro strip_last) simp
  ultimately have "\<not> isspace (last rest)" by simp
  moreover have "last rest \<in> set rest" using assms(2) by simp
  ultimately show ?thesis by (auto simp only: strip_Nil_iff)
qed


lemma parse_line_colon:
  assumes "CHR ''|'' \<notin> set (strip raw)"
  shows "parse_line raw =
     (case strip raw of
        c # d # rest \<Rightarrow>
          if c \<in> set ''RSTU'' \<and> d = CHR '':'' \<and> rest \<noteq> []
          then Some \<lparr>speaker = [c], text' = strip rest\<rparr> else None
      | _ \<Rightarrow> None)"
proof (cases "strip raw")
  case Nil
  then show ?thesis by (simp add: parse_line_def)
next
  case (Cons c cs)
  note l1 = this
  show ?thesis
  proof (cases cs)
    case Nil
    with l1 show ?thesis using assms
      by (auto simp: parse_line_def match_colon_def startswith_def Let_def)
  next
    case (Cons d rest)
    with l1 have l: "strip raw = c # d # rest" by simp
    show ?thesis
    proof (cases "c \<in> set ''RSTU'' \<and> d = CHR '':'' \<and> rest \<noteq> []")
      case True
      then have ne: "strip rest \<noteq> []" using stripped_tail[OF l] by simp
      have g: "strip (if dropWhile isspace rest \<noteq> [] then dropWhile isspace rest else [last rest]) = strip rest"
        using strip_group2[of rest] True by simp
      from True have ns: "\<not> startswith (c # d # rest) ''#''" "\<not> startswith (c # d # rest) ''//''"
        by (auto simp: startswith_def)
      show ?thesis using True assms ne g ns
        by (simp add: parse_line_def l match_colon_def Let_def)
    next
      case False
      then show ?thesis using assms
        by (auto simp: parse_line_def l match_colon_def Let_def)
    qed
  qed
qed

section \<open>Properties of the generator\<close>

lemma catalog_speakers:
  "2 \<le> length (speakers (resolve_format f)) \<and>
   set (speakers (resolve_format f)) \<subseteq> set google_ids \<and>
   speakers (resolve_format f) ! 0 = ''R'' \<and> speakers (resolve_format f) ! 1 = ''S''"
  by (simp add: resolve_format_def PODCAST_FORMATS_def google_ids_def)

lemma response_text_cases:
  "response_text topic ctx i =
     (case key_points_of ctx of
        None \<Rightarrow> Inr (responses ! (i mod length responses) @ '' '' @ topic @
                     '' has many dimensions we need to consider.'')
      | Some kp \<Rightarrow>
          if kp = [] then Inl ZeroDivisionError
          else Inr (responses ! (i mod length responses) @ '' When it comes to '' @
                    kp ! (i mod length kp) @ '' in '' @ topic @
                    '', we're seeing significant developments.''))"
  by (cases ctx) (auto simp: response_text_def key_points_of_def Let_def split: option.splits)

lemma iteration_cases:
  "iteration topic spk ctx i =
     (case response_text topic ctx i of
        Inl e \<Rightarrow> Inl e
      | Inr r \<Rightarrow>
          Inr ([\<lparr>speaker = spk ! 0, text' = content_prompts ! (i mod length content_prompts)\<rparr>,
                \<lparr>speaker = spk ! (1 mod length spk), text' = r\<rparr>] @
               (if length spk > 2 \<and> i mod 3 = 0
                then [\<lparr>speaker = spk ! (2 mod length spk),
                       text' = reactions ! (i mod length reactions)\<rparr>]
                else [])))"
  by (simp only: iteration_def Let_def)

lemma iteration_returns:
  assumes "key_points_of ctx \<noteq> Some []"
  shows "iteration topic spk ctx i = Inr (iteration_turns topic spk ctx i)"
  using assms
  by (auto simp: iteration_turns_def iteration_cases response_text_cases split: option.splits sum.splits)

lemma iteration_raises:
  assumes "key_points_of ctx = Some []"
  shows "iteration topic spk ctx i = Inl ZeroDivisionError"
  using assms by (simp add: iteration_cases response_text_cases)

lemma main_loop_returns:
  assumes "key_points_of ctx \<noteq> Some []"
  shows "main_loop topic spk ctx idx turns =
           Inr (turns @ concat (map (iteration_turns topic spk ctx) idx))"
  using assms
  by (induction idx arbitrary: turns) (simp_all add: iteration_returns)

lemma main_loop_raises:
  assumes "key_points_of ctx = Some []"
  shows "main_loop topic spk ctx idx turns = (if idx = [] then Inr turns else Inl ZeroDivisionError)"
  using assms by (cases idx) (simp_all add: iteration_raises)

lemma generate_returns:
  assumes "key_points_of ctx \<noteq> Some []"
  shows "generate_dialogue_turns topic f d ctx =
           Inr (opening_turns topic f (speakers (resolve_format f)) @
                concat (map (iteration_turns topic (speakers (resolve_format f)) ctx)
                            [0..<nat (min (d * 2 - 4) 10)]) @
                closing_turns topic (speakers (resolve_format f)))"
  using assms
  by (simp add: generate_dialogue_turns_def Let_def main_loop_returns content_prompts_def)


lemma opening_speakers:
  "\<forall>t\<in>set (opening_turns topic f (speakers (resolve_format f))).
     speaker t \<in> set (speakers (resolve_format f))"
  by (simp add: opening_turns_def resolve_format_def PODCAST_FORMATS_def)

lemma closing_speakers:
  "\<forall>t\<in>set (closing_turns topic (speakers (resolve_format f))).
     speaker t \<in> set (speakers (resolve_format f))"
  by (simp add: closing_turns_def resolve_format_def PODCAST_FORMATS_def)

lemma iteration_turns_speaker:
  "t \<in> set (iteration_turns topic spk ctx i) \<Longrightarrow>
   speaker t \<in> {spk ! 0, spk ! (1 mod length spk), spk ! (2 mod length spk)}"
  by (auto simp: iteration_turns_def iteration_def Let_def split: sum.splits if_splits)

lemma iteration_speakers:
  assumes "2 \<le> length spk"
  shows "\<forall>t\<in>set (iteration_turns topic spk ctx i). speaker t \<in> set spk"
proof -
  from assms have p: "0 < length spk" by arith
  then have "0 < length spk" "1 mod length spk < length spk" "2 mod length spk < length spk"
    by (simp_all only: mod_less_divisor)
  then have m: "spk ! 0 \<in> set spk" "spk ! (1 mod length spk) \<in> set spk"
    "spk ! (2 mod length spk) \<in> set spk"
    by (simp_all only: nth_mem)
  show ?thesis
  proof
    fix t
    assume "t \<in> set (iteration_turns topic spk ctx i)"
    then have "speaker t = spk ! 0 \<or> speaker t = spk ! (1 mod length spk) \<or>
               speaker t = spk ! (2 mod length spk)"
      using iteration_turns_speaker[of t topic spk ctx i]
      by (simp only: insert_iff empty_iff simp_thms)
    with m show "speaker t \<in> set spk" by (elim disjE) (simp_all only:)
  qed
qed

lemma opening_length: "2 \<le> length (opening_turns topic f (speakers (resolve_format f)))"
  by (simp add: opening_turns_def resolve_format_def PODCAST_FORMATS_def)

lemma closing_length: "length (closing_turns topic (speakers (resolve_format f))) = 3"
  by (simp add: closing_turns_def resolve_format_def PODCAST_FORMATS_def)

lemma generate_wellformed:
  assumes "key_points_of ctx \<noteq> Some []"
  shows "\<exists>turns. generate_dialogue_turns topic f d ctx = Inr turns \<and> 4 \<le> length turns \<and>
           (\<forall>t\<in>set turns. speaker t \<in> set (speakers (resolve_format f)))"
proof -
  let ?spk = "speakers (resolve_format f)"
  have l: "2 \<le> length ?spk" using catalog_speakers[of f] by simp
  show ?thesis
    using generate_returns[OF assms, of topic f d] opening_speakers[of topic f]
      closing_speakers[of topic f] iteration_speakers[OF l, of topic ctx]
      opening_length[of topic f] closing_length[of topic f]
    by auto
qed

lemma clean_wrap:
  assumes "a \<noteq> []" "\<not> isspace (hd a)" "nl \<notin> set a" "nl \<notin> set m"
    and "z \<noteq> []" "\<not> isspace (last z)" "nl \<notin> set z"
  shows "clean_text (a @ m @ z)"
  using assms by (simp add: clean_text_def)

lemma prompts_clean: "\<forall>s\<in>set content_prompts. clean_text s"
  by (simp add: content_prompts_def clean_text_def nl_def isspace_def)

lemma reactions_clean: "\<forall>s\<in>set reactions. clean_text s"
  by (simp add: reactions_def clean_text_def nl_def isspace_def)

lemma responses_start: "\<forall>s\<in>set responses. s \<noteq> [] \<and> \<not> isspace (hd s) \<and> nl \<notin> set s"
  by (simp add: responses_def nl_def isspace_def)

lemma pool_nth:
  "clean_text (content_prompts ! (i mod length content_prompts))"
  "clean_text (reactions ! (i mod length reactions))"
  "responses ! (i mod length responses) \<noteq> [] \<and>
   \<not> isspace (hd (responses ! (i mod length responses))) \<and>
   nl \<notin> set (responses ! (i mod length responses))"
proof -
  have "content_prompts ! (i mod length content_prompts) \<in> set content_prompts"
    by (rule nth_mem) (simp add: content_prompts_def)
  then show "clean_text (content_prompts ! (i mod length content_prompts))"
    using prompts_clean by blast
  have "reactions ! (i mod length reactions) \<in> set reactions"
    by (rule nth_mem) (simp add: reactions_def)
  then show "clean_text (reactions ! (i mod length reactions))"
    using reactions_clean by blast
  have "responses ! (i mod length responses) \<in> set responses"
    by (rule nth_mem) (simp add: responses_def)
  then show "responses ! (i mod length responses) \<noteq> [] \<and>
   \<not> isspace (hd (responses ! (i mod length responses))) \<and>
   nl \<notin> set (responses ! (i mod length responses))"
    using responses_start by blast
qed


lemma opening_clean:
  assumes "nl \<notin> set topic"
  shows "\<forall>t\<in>set (opening_turns topic f spk). clean_text (text' t)"
  using assms by (simp add: opening_turns_def clean_text_def nl_def isspace_def)

lemma closing_clean:
  assumes "nl \<notin> set topic"
  shows "\<forall>t\<in>set (closing_turns topic spk). clean_text (text' t)"
  using assms by (simp add: closing_turns_def clean_text_def nl_def isspace_def)

lemma response_clean:
  assumes "nl \<notin> set topic"
    and "\<forall>kp. key_points_of ctx = Some kp \<longrightarrow> (\<forall>p\<in>set kp. nl \<notin> set p)"
    and "response_text topic ctx i = Inr r"
  shows "clean_text r"
proof (cases "key_points_of ctx")
  case None
  with assms(3) have r: "r = responses ! (i mod length responses) @ ('' '' @ topic) @
                     '' has many dimensions we need to consider.''"
    by (simp add: response_text_cases)
  show ?thesis unfolding r
    using pool_nth(3)[of i] assms(1)
    by (intro clean_wrap) (simp_all add: nl_def isspace_def)
next
  case (Some kp)
  with assms(3) have ne: "kp \<noteq> []"
    by (auto simp: response_text_cases split: if_splits)
  with Some assms(3) have r: "r = responses ! (i mod length responses) @
       ('' When it comes to '' @ kp ! (i mod length kp) @ '' in '' @ topic) @
       '', we're seeing significant developments.''"
    by (simp add: response_text_cases)
  from ne have "kp ! (i mod length kp) \<in> set kp" by (intro nth_mem) simp
  with assms(2) Some have p: "nl \<notin> set (kp ! (i mod length kp))" by blast
  show ?thesis unfolding r
    using pool_nth(3)[of i] assms(1) p
    by (intro clean_wrap) (simp_all add: nl_def isspace_def)
qed

lemma iteration_clean:
  assumes "nl \<notin> set topic"
    and "\<forall>kp. key_points_of ctx = Some kp \<longrightarrow> (\<forall>p\<in>set kp. nl \<notin> set p)"
  shows "\<forall>t\<in>set (iteration_turns topic spk ctx i). clean_text (text' t)"
  using response_clean[OF assms, of i] pool_nth(1,2)[of i]
  by (auto simp: iteration_turns_def iteration_cases split: sum.splits if_splits)

section \<open>Properties of the parser\<close>

lemma split_on_nonempty: "split_on d s \<noteq> []"
  by (induction s) (auto split: list.splits)

lemma split_on_single: "d \<notin> set a \<Longrightarrow> split_on d a = [a]"
  by (induction a) auto

lemma split_on_append:
  "d \<notin> set a \<Longrightarrow> split_on d (a @ d # rest) = a # split_on d rest"
  by (induction a) (auto split: list.splits)

lemma split_on_join:
  assumes "ls \<noteq> []" "\<forall>l\<in>set ls. d \<notin> set l"
  shows "split_on d (join [d] ls) = ls"
  using assms
proof (induction "[d]" ls rule: join.induct)
  case 1
  then show ?case by simp
next
  case (2 x)
  then show ?case by (simp add: split_on_single)
next
  case (3 x y ys)
  then show ?case by (simp add: split_on_append)
qed

lemma join_hd_last:
  assumes "ls \<noteq> []" "\<forall>l\<in>set ls. l \<noteq> []"
  shows "join sep ls \<noteq> [] \<and> hd (join sep ls) = hd (hd ls) \<and> last (join sep ls) = last (last ls)"
  using assms
  by (induction sep ls rule: join.induct) auto

lemma map_filter_all_Some:
  "\<forall>x\<in>set xs. f (g x) = Some x \<Longrightarrow> List.map_filter f (map g xs) = xs"
  by (induction xs) (simp_all add: List.map_filter_simps)

lemma parse_serialized_line:
  assumes "speaker t \<in> set google_ids" "clean_text (text' t)"
  shows "parse_line (speaker t @ ''|'' @ text' t) = Some t"
proof -
  let ?line = "speaker t @ ''|'' @ text' t"
  from assms(1) have sp: "speaker t \<in> {''R'', ''S'', ''T'', ''U''}" by (simp add: google_ids_def)
  from assms(2) have c: "text' t \<noteq> []" "\<not> isspace (hd (text' t))" "\<not> isspace (last (text' t))"
    by (simp_all add: clean_text_def)
  have hd: "\<not> isspace (hd ?line)" using sp by (auto simp: isspace_def)
  have la: "last ?line = last (text' t)" using c(1) by simp
  have s: "strip ?line = ?line" using hd la c(3) by (intro strip_id) simp_all
  have st: "strip (text' t) = text' t" using c by (intro strip_id)
  have tw: "takeWhile (\<lambda>c. c \<noteq> CHR ''|'') ?line = speaker t"
    and dw: "tl (dropWhile (\<lambda>c. c \<noteq> CHR ''|'') ?line) = text' t"
    using sp by auto
  have up: "upper (strip (speaker t)) = speaker t" "map_of GOOGLE_SPEAKERS (speaker t) \<noteq> None"
    using sp by (auto simp: upper_def upper_char_def strip_def isspace_def GOOGLE_SPEAKERS_def)
  have ns: "\<not> startswith ?line ''#''" "\<not> startswith ?line ''//''" "?line \<noteq> []"
    "CHR ''|'' \<in> set ?line"
    using sp by (auto simp: startswith_def)
  show ?thesis
    unfolding parse_line_def s Let_def tw dw up(1) st
    using ns up(2) c(1) by simp
qed

lemma parse_serialize:
  assumes ne: "turns \<noteq> []"
    and ok: "\<forall>t\<in>set turns. speaker t \<in> set google_ids \<and> clean_text (text' t)"
  shows "parse_google_script (serialize turns) = turns"
proof -
  let ?ser = "\<lambda>t. speaker t @ ''|'' @ text' t"
  let ?lines = "map ?ser turns"
  have l0: "?lines \<noteq> []" using ne by simp
  have l1: "\<forall>l\<in>set ?lines. nl \<notin> set l"
    using ok by (auto simp: google_ids_def clean_text_def nl_def)
  have l2: "\<forall>l\<in>set ?lines. l \<noteq> []" by simp
  have sp: "split_on nl (join [nl] ?lines) = ?lines"
    using l0 l1 by (rule split_on_join)
  have j: "join [nl] ?lines \<noteq> [] \<and> hd (join [nl] ?lines) = hd (hd ?lines) \<and>
           last (join [nl] ?lines) = last (last ?lines)"
    using l0 l2 by (rule join_hd_last)
  have h: "\<not> isspace (hd (hd ?lines))"
  proof -
    have "hd turns \<in> set turns" using ne by simp
    with ok have "speaker (hd turns) \<in> set google_ids" by blast
    then have "\<not> isspace (hd (?ser (hd turns)))"
      by (auto simp: google_ids_def isspace_def)
    then show ?thesis using ne by (simp add: hd_map)
  qed
  have la: "\<not> isspace (last (last ?lines))"
  proof -
    have "last turns \<in> set turns" using ne by simp
    with ok have c: "clean_text (text' (last turns))" by blast
    then have "last (?ser (last turns)) = last (text' (last turns))"
      by (simp add: clean_text_def)
    with c show ?thesis using ne by (simp add: last_map clean_text_def)
  qed
  have st: "strip (join [nl] ?lines) = join [nl] ?lines"
    using j h la by (intro strip_id) simp_all
  have mf: "List.map_filter parse_line ?lines = turns"
  proof (rule map_filter_all_Some)
    show "\<forall>t\<in>set turns. parse_line (?ser t) = Some t"
      using ok parse_serialized_line by blast
  qed
  show ?thesis
    unfolding parse_google_script_def serialize_def st sp mf Let_def
    using ne by simp
qed

lemma generated_turns_clean:
  assumes "nl \<notin> set topic"
    and "\<forall>kp. key_points_of ctx = Some kp \<longrightarrow> (\<forall>p\<in>set kp. nl \<notin> set p)"
    and "generate_dialogue_turns topic f d ctx = Inr turns"
  shows "\<forall>t\<in>set turns. clean_text (text' t)"
proof (cases "key_points_of ctx = Some []")
  case True
  show ?thesis
  proof (cases "nat (min (d * 2 - 4) 10) = 0")
    case z: True
    with assms(3) have "turns = opening_turns topic f (speakers (resolve_format f)) @
        closing_turns topic (speakers (resolve_format f))"
      by (simp add: generate_dialogue_turns_def Let_def content_prompts_def)
    then show ?thesis using opening_clean[OF assms(1)] closing_clean[OF assms(1)] by auto
  next
    case False
    then have "[0..<nat (min (d * 2 - 4) 10)] \<noteq> []" by simp
    with True assms(3) show ?thesis
      by (simp add: generate_dialogue_turns_def Let_def content_prompts_def main_loop_raises)
  qed
next
  case False
  with assms(3) have "turns = opening_turns topic f (speakers (resolve_format f)) @
                concat (map (iteration_turns topic (speakers (resolve_format f)) ctx)
                            [0..<nat (min (d * 2 - 4) 10)]) @
                closing_turns topic (speakers (resolve_format f))"
    by (simp add: generate_returns)
  then show ?thesis
    using opening_clean[OF assms(1)] closing_clean[OF assms(1)] iteration_clean[OF assms(1,2)]
    by auto
qed

section \<open>Properties of the converter\<close>

lemma dict_set_fresh: "k \<notin> fst ` set m \<Longrightarrow> dict_set m k v = m @ [(k, v)]"
  by (induction m) auto

lemma assign_fold:
  "distinct ls \<Longrightarrow> set ls \<inter> fst ` set m = {} \<Longrightarrow>
   fold (\<lambda>(i, label) m. dict_set m label (g i)) (enumerate n ls) m =
     m @ map (\<lambda>(i, label). (label, g i)) (enumerate n ls)"
proof (induction ls arbitrary: n m)
  case Nil
  then show ?case by simp
next
  case (Cons l ls)
  from Cons.prems have f: "l \<notin> fst ` set m" by auto
  from Cons.prems have d: "distinct ls" "set ls \<inter> fst ` set (m @ [(l, g n)]) = {}" by auto
  show ?case
    using Cons.IH[OF d, of "Suc n"] by (simp add: dict_set_fresh[OF f])
qed

lemma enumerate_zip_nth:
  "length xs \<le> length ys \<Longrightarrow> map (\<lambda>(i, x). (x, ys ! i)) (enumerate 0 xs) = zip xs ys"
  by (rule nth_equalityI) (simp_all add: nth_enumerate_eq)

lemma detect_distinct: "distinct found \<Longrightarrow> distinct (detect_speakers ls found)"
  by (induction ls arbitrary: found) (auto simp: Let_def split: option.splits)

lemma assign_ids_zip:
  assumes "distinct found"
  shows "assign_ids found [] = zip (take 4 found) google_ids"
proof -
  have d: "distinct (take 4 found)" using assms by simp
  have l: "length (take 4 found) \<le> length google_ids" by (simp add: google_ids_def)
  show ?thesis
    unfolding assign_ids_def
    using assign_fold[OF d, of "[]" "\<lambda>i. google_ids ! i" 0] enumerate_zip_nth[OF l]
    by simp
qed

lemma auto_mapping_zip:
  "auto_mapping script = zip (take 4 (detect_speakers (split_on nl script) [])) google_ids"
  by (simp add: auto_mapping_def assign_ids_zip detect_distinct)

lemma auto_mapping_keys:
  "map fst (auto_mapping script) = take 4 (detect_speakers (split_on nl script) [])"
  by (simp add: auto_mapping_zip map_fst_zip_take google_ids_def min_def)

lemma auto_mapping_values: "snd ` set (auto_mapping script) \<subseteq> set google_ids"
  by (auto simp: auto_mapping_zip dest: set_zip_rightD)


lemma after_colon_has_colon: "after_colon b s = Some g \<Longrightarrow> CHR '':'' \<in> set s"
proof -
  assume a: "after_colon b s = Some g"
  then obtain rest where "dropWhile isspace s = CHR '':'' # rest"
    by (auto simp: after_colon_def split: list.splits if_splits)
  then have "CHR '':'' \<in> set (dropWhile isspace s)" by simp
  then show ?thesis by (rule set_dropWhileD)
qed

lemma annotation_has_colon: "annotation b s = Some g \<Longrightarrow> CHR '':'' \<in> set s"
  by (induction s) (auto split: if_splits option.splits dest: after_colon_has_colon)

lemma label_end_has_colon: "label_end b s = Some g \<Longrightarrow> CHR '':'' \<in> set s"
proof -
  assume a: "label_end b s = Some g"
  show ?thesis
  proof (cases "after_colon b s")
    case (Some g')
    then show ?thesis by (rule after_colon_has_colon)
  next
    case None
    with a obtain c cs where d: "dropWhile isspace s = c # cs" and "annotation b cs = Some g"
      by (auto simp: label_end_def split: list.splits if_splits option.splits)
    then have "CHR '':'' \<in> set cs" by (auto dest: annotation_has_colon)
    with d have "CHR '':'' \<in> set (dropWhile isspace s)" by simp
    then show ?thesis by (rule set_dropWhileD)
  qed
qed

lemma lazy_label_has_colon: "lazy_label b acc s = Some r \<Longrightarrow> CHR '':'' \<in> set s"
  by (induction b acc s rule: lazy_label.induct)
     (auto split: option.splits if_splits dest: label_end_has_colon)

lemma match_speaker_has_colon: "match_speaker b s = Some r \<Longrightarrow> CHR '':'' \<in> set s"
  by (auto simp: match_speaker_def split: list.splits if_splits dest: lazy_label_has_colon)

lemma convert_line_cases:
  "convert_line m line =
     (case match_speaker True (strip line) of
        None \<Rightarrow> None
      | Some (g1, g2) \<Rightarrow>
          (case map_of m (strip g1) of
             None \<Rightarrow> None
           | Some google_id \<Rightarrow>
               if google_id \<noteq> [] \<and> strip g2 \<noteq> [] then Some (google_id @ ''|'' @ strip g2)
               else None))"
proof (cases "match_speaker True (strip line)")
  case None
  then show ?thesis by (simp add: convert_line_def Let_def)
next
  case (Some r)
  then have "CHR '':'' \<in> set (strip line)" by (rule match_speaker_has_colon)
  moreover then have "strip line \<noteq> []" by auto
  ultimately show ?thesis using Some
    by (simp add: convert_line_def Let_def split: prod.splits)
qed

lemma convert_line_unmapped:
  assumes "\<forall>g1 g2. match_speaker True (strip line) = Some (g1, g2) \<longrightarrow> map_of m (strip g1) = None"
  shows "convert_line m line = None"
  using assms by (auto simp: convert_line_cases split: option.splits)

lemma convert_line_shape:
  assumes "convert_line m line = Some out"
  shows "\<exists>g1 g2 v. match_speaker True (strip line) = Some (g1, g2) \<and>
           map_of m (strip g1) = Some v \<and> v \<noteq> [] \<and> strip g2 \<noteq> [] \<and>
           out = v @ ''|'' @ strip g2"
  using assms by (auto simp: convert_line_cases split: option.splits if_splits)

lemma map_filter_set: "y \<in> set (List.map_filter f xs) \<Longrightarrow> \<exists>x\<in>set xs. f x = Some y"
  by (auto simp: List.map_filter_def)

lemma auto_mapping_lookup_None:
  assumes "label \<notin> set (take 4 (detect_speakers (split_on nl script) []))"
  shows "map_of (auto_mapping script) label = None"
proof -
  have "label \<notin> fst ` set (auto_mapping script)"
    using assms auto_mapping_keys[of script] by (metis set_map)
  then show ?thesis by (simp add: map_of_eq_None_iff)
qed

lemma auto_mapping_lookup_id:
  assumes "map_of (auto_mapping script) label = Some v"
  shows "v \<in> set google_ids"
proof -
  from assms have "(label, v) \<in> set (auto_mapping script)" by (rule map_of_SomeD)
  then have "v \<in> snd ` set (auto_mapping script)" by force
  then show ?thesis using auto_mapping_values by blast
qed

lemma auto_no_key_error:
  "find (\<lambda>(k, v). map_of GOOGLE_SPEAKERS v = None) (auto_mapping script) = None"
proof -
  have "map_of GOOGLE_SPEAKERS v \<noteq> None" if "(k, v) \<in> set (auto_mapping script)" for k v
  proof -
    from that have "v \<in> snd ` set (auto_mapping script)" by force
    then have "v \<in> set google_ids" using auto_mapping_values by blast
    then show ?thesis by (auto simp: google_ids_def GOOGLE_SPEAKERS_def)
  qed
  then show ?thesis by (auto simp: find_None_iff)
qed

lemma auto_convert_no_raise: "convert_to_google_format script [] \<noteq> Inl e"
  by (simp add: convert_to_google_format_def Let_def auto_no_key_error)

lemma generate_result_form:
  assumes "generate_dialogue_turns topic f d ctx = Inr turns"
  shows "turns = opening_turns topic f (speakers (resolve_format f)) @
                 concat (map (iteration_turns topic (speakers (resolve_format f)) ctx)
                             [0..<nat (min (d * 2 - 4) 10)]) @
                 closing_turns topic (speakers (resolve_format f))"
proof (cases "key_points_of ctx = Some []")
  case True
  show ?thesis
  proof (cases "nat (min (d * 2 - 4) 10) = 0")
    case z: True
    with assms show ?thesis
      by (simp add: generate_dialogue_turns_def Let_def content_prompts_def)
  next
    case False
    then have "[0..<nat (min (d * 2 - 4) 10)] \<noteq> []" by simp
    with True assms show ?thesis
      by (simp add: generate_dialogue_turns_def Let_def content_prompts_def main_loop_raises)
  qed
next
  case False
  with assms show ?thesis by (simp add: generate_returns)
qed

lemma auto_convert_answer:
  "convert_to_google_format script [] =
     (if script = [] then Inr (Error ''Error: script parameter is required'')
      else if converted_lines (auto_mapping script) script = [] then
        Inr (Error ''Error: Could not convert script. No valid dialogue found.'')
      else Inr (Converted (auto_mapping script)
                  (join [nl] (converted_lines (auto_mapping script) script))))"
  by (simp add: convert_to_google_format_def Let_def auto_no_key_error)

lemma returned_lines_canonical:
  assumes "convert_to_google_format script supplied = Inr (Converted m t)"
  shows "t = join [nl] (converted_lines m script) \<and>
         (\<forall>out\<in>set (converted_lines m script).
            \<exists>v\<in>set google_ids. \<exists>x. x \<noteq> [] \<and> out = v @ ''|'' @ x)"
proof -
  let ?m = "if supplied = [] then auto_mapping script else supplied"
  from assms have ne: "script \<noteq> []"
    by (auto simp: convert_to_google_format_def split: if_splits)
  from assms ne have out: "converted_lines ?m script \<noteq> []"
    by (auto simp: convert_to_google_format_def Let_def split: if_splits)
  from assms ne out have f: "find (\<lambda>(k, v). map_of GOOGLE_SPEAKERS v = None) ?m = None"
    and m: "m = ?m" and t: "t = join [nl] (converted_lines ?m script)"
    by (auto simp: convert_to_google_format_def Let_def split: if_splits option.splits)
  have can: "v \<in> set google_ids" if "map_of m label = Some v" for label v
  proof -
    from that have "(label, v) \<in> set m" by (rule map_of_SomeD)
    with f m have "map_of GOOGLE_SPEAKERS v \<noteq> None" by (auto simp: find_None_iff)
    then show ?thesis
      by (auto simp: GOOGLE_SPEAKERS_def google_ids_def split: if_splits)
  qed
  have "\<forall>out\<in>set (converted_lines m script).
            \<exists>v\<in>set google_ids. \<exists>x. x \<noteq> [] \<and> out = v @ ''|'' @ x"
  proof
    fix out assume "out \<in> set (converted_lines m script)"
    then obtain line where "convert_line m line = Some out"
      unfolding converted_lines_def by (blast dest: map_filter_set)
    from convert_line_shape[OF this] obtain g1 g2 v where
      s: "map_of m (strip g1) = Some v" "strip g2 \<noteq> []" "out = v @ ''|'' @ strip g2"
      by blast
    from can[OF s(1)] s(2,3) show "\<exists>v\<in>set google_ids. \<exists>x. x \<noteq> [] \<and> out = v @ ''|'' @ x"
      by blast
  qed
  with t m show ?thesis by simp
qed

section \<open>Evaluation of the definitions\<close>

lemmas generate_eval =
  generate_dialogue_turns_def resolve_format_def PODCAST_FORMATS_def content_prompts_def
  opening_turns_def closing_turns_def iteration_def response_text_def responses_def
  reactions_def upt_conv_Cons

lemmas parse_eval =
  parse_google_script_def parse_line_def strip_def isspace_def nl_def startswith_def
  match_colon_def upper_def upper_char_def GOOGLE_SPEAKERS_def auto_assign_def
  enumerate_eq_zip

lemmas convert_eval =
  convert_to_google_format_def auto_mapping_def assign_ids_def match_speaker_def
  label_char_def label_end_def after_colon_def strip_def isspace_def nl_def google_ids_def
  converted_lines_def convert_line_def GOOGLE_SPEAKERS_def enumerate_eq_zip upt_conv_Cons

section \<open>Turn generation: the empty sequence of key points\<close>

text \<open>
  Claim C1. For every format of the catalog and every duration of at least one minute
  the generator is to return at least four turns, spoken by speakers of the format.
  With the format \<open>roundtable\<close>, five minutes and a context in which \<open>key_points\<close> is
  bound to the empty sequence, the call raises \<open>ZeroDivisionError\<close> in the first
  iteration of the main loop and returns no turns at all.
\<close>

theorem roundtable_empty_key_points_raises:
  "generate_dialogue_turns ''Space'' ''roundtable'' 5 (Some [(''key_points'', [])])
     = Inl ZeroDivisionError"
  by (simp add: generate_eval)

text \<open>
  Claim C3. The generator is never to abort, in particular not for a context in which
  \<open>key_points\<close> is present and bound to the empty sequence, where the generic phrase
  is to be used. The source tests the presence of the key only; with three minutes
  the main loop runs, and \<open>i % len(key_points)\<close> divides by zero.
\<close>

theorem dialogue_empty_key_points_raises:
  "generate_dialogue_turns ''AI'' ''dialogue'' 3 (Some [(''key_points'', [])])
     = Inl ZeroDivisionError"
  by (simp add: generate_eval)

section \<open>Turn generation: unknown format names\<close>

text \<open>
  Claim C8. A format name that is not in the catalog gives the same result as the name
  \<open>dialogue\<close>, for every topic, duration and context: the name is replaced by the
  default and is no error of its own.
\<close>

theorem unknown_format_as_dialogue:
  assumes "format_type \<notin> fst ` set PODCAST_FORMATS"
  shows "generate_dialogue_turns topic format_type duration_minutes additional_context
           = generate_dialogue_turns topic ''dialogue'' duration_minutes additional_context"
proof -
  from assms have r: "resolve_format format_type = resolve_format ''dialogue''"
    by (simp add: resolve_format_def PODCAST_FORMATS_def)
  from assms have n: "format_type \<noteq> ''interview''" "format_type \<noteq> ''debate''"
    by (auto simp: PODCAST_FORMATS_def)
  have o: "opening_turns topic format_type spk = opening_turns topic ''dialogue'' spk" for spk
    using n by (simp add: opening_turns_def)
  show ?thesis
    by (simp add: generate_dialogue_turns_def r o)
qed

theorem unknown_format_as_dialogue_witness:
  "''chat'' \<notin> fst ` set PODCAST_FORMATS \<and>
   generate_dialogue_turns ''AI'' ''chat'' 3 None =
     Inr [\<lparr>speaker = ''R'', text' = ''Let's explore AI together.''\<rparr>,
          \<lparr>speaker = ''S'', text' = ''Absolutely! This is such a relevant topic right now.''\<rparr>,
          \<lparr>speaker = ''R'', text' = ''What's the most important thing people should understand?''\<rparr>,
          \<lparr>speaker = ''S'',
            text' = ''That's a great question. Let me explain... AI has many dimensions we need to consider.''\<rparr>,
          \<lparr>speaker = ''R'', text' = ''Can you give us a specific example?''\<rparr>,
          \<lparr>speaker = ''S'',
            text' = ''Actually, it's quite fascinating when you look at it closely... AI has many dimensions we need to consider.''\<rparr>,
          \<lparr>speaker = ''R'',
            text' = ''This has been an enlightening discussion about AI. Any final thoughts?''\<rparr>,
          \<lparr>speaker = ''S'',
            text' = ''The key takeaway is to stay informed and engaged with these developments.''\<rparr>,
          \<lparr>speaker = ''R'', text' = ''Thank you for joining us today. Until next time!''\<rparr>]"
proof -
  have h: "''chat'' \<notin> fst ` set PODCAST_FORMATS"
    by (simp add: PODCAST_FORMATS_def)
  show ?thesis
    using h unknown_format_as_dialogue [OF h, of "''AI''" 3 None]
    by (simp add: generate_eval)
qed

section \<open>The round trip through the script\<close>

text \<open>
  Claim C2, as the source has it. When the topic holds no newline, and \<open>key_points\<close>
  is absent or bound to a sequence that is not empty and whose strings hold no newline,
  then for every format name and every duration the generator returns turns, and
  parsing their serialization, one line \<open>speaker|text\<close> for each turn, gives the same
  turns back.
\<close>

theorem generate_parse_roundtrip:
  assumes "nl \<notin> set topic"
    and "key_points_of ctx \<noteq> Some []"
    and "\<forall>kp. key_points_of ctx = Some kp \<longrightarrow> (\<forall>p\<in>set kp. nl \<notin> set p)"
  shows "\<exists>turns. generate_dialogue_turns topic f d ctx = Inr turns \<and>
                 parse_google_script (serialize turns) = turns"
proof -
  from generate_wellformed[OF assms(2), of topic f d]
  obtain turns where g: "generate_dialogue_turns topic f d ctx = Inr turns"
    and len: "4 \<le> length turns"
    and spk: "\<forall>t\<in>set turns. speaker t \<in> set (speakers (resolve_format f))"
    by blast
  from len have ne: "turns \<noteq> []" by auto
  have ids: "\<forall>t\<in>set turns. speaker t \<in> set google_ids"
    using spk catalog_speakers[of f] by blast
  have cl: "\<forall>t\<in>set turns. clean_text (text' t)"
    using generated_turns_clean[OF assms(1,3) g] .
  have "parse_google_script (serialize turns) = turns"
    using ne ids cl by (intro parse_serialize) simp_all
  with g show ?thesis by blast
qed

theorem generate_parse_roundtrip_witness:
  "nl \<notin> set ''Space'' \<and>
   key_points_of (Some [(''key_points'', [''Mars missions'', ''private companies''])]) =
     Some [''Mars missions'', ''private companies''] \<and>
   (\<exists>turns. generate_dialogue_turns ''Space'' ''interview'' 3
              (Some [(''key_points'', [''Mars missions'', ''private companies''])]) = Inr turns \<and>
            parse_google_script (serialize turns) = turns)"
proof -
  let ?ctx = "Some [(''key_points'', [''Mars missions'', ''private companies''])]"
  have k: "key_points_of ?ctx = Some [''Mars missions'', ''private companies'']"
    by (simp add: key_points_of_def)
  have h1: "nl \<notin> set ''Space''" by (simp add: nl_def)
  have h2: "key_points_of ?ctx \<noteq> Some []" by (simp add: k)
  have h3: "\<forall>kp. key_points_of ?ctx = Some kp \<longrightarrow> (\<forall>p\<in>set kp. nl \<notin> set p)"
    by (simp add: k nl_def)
  show ?thesis
    using h1 k generate_parse_roundtrip [OF h1 h2 h3, of "''interview''" 3] by simp
qed

text \<open>
  With a newline in the topic the texts of the first and the fourth turn span two
  lines of the script; the parser keeps the first line of each as the text and drops
  the second, which has no separator.
\<close>

theorem newline_topic_roundtrip_counterexample:
  "generate_dialogue_turns (''Cats'' @ [nl] @ ''Dogs'') ''dialogue'' 1 None =
     Inr [\<lparr>speaker = ''R'', text' = ''Let's explore Cats'' @ [nl] @ ''Dogs together.''\<rparr>,
          \<lparr>speaker = ''S'', text' = ''Absolutely! This is such a relevant topic right now.''\<rparr>,
          \<lparr>speaker = ''R'',
            text' = ''This has been an enlightening discussion about Cats'' @ [nl] @
                    ''Dogs. Any final thoughts?''\<rparr>,
          \<lparr>speaker = ''S'',
            text' = ''The key takeaway is to stay informed and engaged with these developments.''\<rparr>,
          \<lparr>speaker = ''R'', text' = ''Thank you for joining us today. Until next time!''\<rparr>] \<and>
   parse_google_script (serialize
         [\<lparr>speaker = ''R'', text' = ''Let's explore Cats'' @ [nl] @ ''Dogs together.''\<rparr>,
          \<lparr>speaker = ''S'', text' = ''Absolutely! This is such a relevant topic right now.''\<rparr>,
          \<lparr>speaker = ''R'',
            text' = ''This has been an enlightening discussion about Cats'' @ [nl] @
                    ''Dogs. Any final thoughts?''\<rparr>,
          \<lparr>speaker = ''S'',
            text' = ''The key takeaway is to stay informed and engaged with these developments.''\<rparr>,
          \<lparr>speaker = ''R'', text' = ''Thank you for joining us today. Until next time!''\<rparr>]) \<noteq>
         [\<lparr>speaker = ''R'', text' = ''Let's explore Cats'' @ [nl] @ ''Dogs together.''\<rparr>,
          \<lparr>speaker = ''S'', text' = ''Absolutely! This is such a relevant topic right now.''\<rparr>,
          \<lparr>speaker = ''R'',
            text' = ''This has been an enlightening discussion about Cats'' @ [nl] @
                    ''Dogs. Any final thoughts?''\<rparr>,
          \<lparr>speaker = ''S'',
            text' = ''The key takeaway is to stay informed and engaged with these developments.''\<rparr>,
          \<lparr>speaker = ''R'', text' = ''Thank you for joining us today. Until next time!''\<rparr>]"
  by (simp add: generate_eval parse_eval serialize_def)

section \<open>Script parsing: comment lines and the paragraph fallback\<close>

text \<open>
  Claim C4. A blank line or a comment line is never to contribute to a turn, in any
  tier, the paragraph fallback included. The loop over the lines skips such lines, but
  the fallback splits the script as it was given: for a script of a comment line, a
  blank line and a line of plain text no turn comes from the loop, and the fallback
  makes a turn of the comment line.
\<close>

theorem comment_line_spoken_by_fallback:
  "parse_google_script (''# intro'' @ [nl, nl] @ ''Hello there'') =
     [\<lparr>speaker = ''R'', text' = ''# intro''\<rparr>, \<lparr>speaker = ''S'', text' = ''Hello there''\<rparr>]"
  by (simp add: parse_eval)

section \<open>Script parsing: the colon tier\<close>

text \<open>
  Claim C7, as the source has it. For a line that, once stripped, has no \<open>|\<close> and has a
  \<open>:\<close>, the loop emits the turn \<open>t\<close> exactly when the stripped line is one of the
  letters R, S, T, U, then the colon, then a remainder that is not empty after
  trimming; the turn has that letter as speaker and the trimmed remainder as text.
  Whitespace after the colon is allowed and not required.
\<close>

theorem colon_tier_exact:
  assumes "CHR ''|'' \<notin> set (strip raw)" and "CHR '':'' \<in> set (strip raw)"
  shows "(parse_line raw = Some t) \<longleftrightarrow>
         (\<exists>c rest. strip raw = c # CHR '':'' # rest \<and> c \<in> set ''RSTU'' \<and> strip rest \<noteq> [] \<and>
                   t = \<lparr>speaker = [c], text' = strip rest\<rparr>)"
proof (cases "strip raw")
  case Nil
  with assms(2) show ?thesis by simp
next
  case (Cons c cs)
  note l1 = this
  show ?thesis
  proof (cases cs)
    case Nil
    with l1 show ?thesis using parse_line_colon[OF assms(1)] by simp
  next
    case (Cons d rest)
    with l1 have l: "strip raw = c # d # rest" by simp
    have e: "rest \<noteq> [] \<longleftrightarrow> strip rest \<noteq> []"
      using stripped_tail[OF l] by (auto simp: strip_Nil_iff)
    show ?thesis using parse_line_colon[OF assms(1)] e
      by (auto simp: l)
  qed
qed

theorem colon_tier_exact_witness:
  "CHR ''|'' \<notin> set (strip ''R: Hi'') \<and> CHR '':'' \<in> set (strip ''R: Hi'') \<and>
   parse_line ''R: Hi'' = Some \<lparr>speaker = ''R'', text' = ''Hi''\<rparr>"
proof -
  have s: "strip ''R: Hi'' = ''R: Hi''" by (simp add: strip_def isspace_def)
  have s2: "strip '' Hi'' = ''Hi''" by (simp add: strip_def isspace_def)
  have h1: "CHR ''|'' \<notin> set (strip ''R: Hi'')" by (simp add: s)
  have h2: "CHR '':'' \<in> set (strip ''R: Hi'')" by (simp add: s)
  have "parse_line ''R: Hi'' = Some \<lparr>speaker = ''R'', text' = ''Hi''\<rparr>"
    using colon_tier_exact[OF h1 h2, of "\<lparr>speaker = ''R'', text' = ''Hi''\<rparr>"]
    by (simp add: s s2)
  with h1 h2 show ?thesis by simp
qed

text \<open>
  The line \<open>R:Hi\<close> has no whitespace after the colon, so that it has not the shape the
  claim asks for, and the loop emits a turn for it.
\<close>

theorem colon_without_whitespace_counterexample:
  "CHR ''|'' \<notin> set ''R:Hi'' \<and> CHR '':'' \<in> set ''R:Hi'' \<and>
   parse_line ''R:Hi'' = Some \<lparr>speaker = ''R'', text' = ''Hi''\<rparr> \<and>
   \<not> colon_anchor_spec ''R:Hi''"
  by (simp add: parse_eval colon_anchor_spec_def)

section \<open>Conversion: the automatic mapping\<close>


section \<open>Conversion: a supplied mapping\<close>

text \<open>
  When the label of a line is bound in the mapping to a value that is not the empty
  string, and the text of the line is not empty, the converted line is that value, the
  separator and the text: the loop writes the value as it is, and does not ask whether
  it is one of R, S, T, U.
\<close>

lemma mapped_value_verbatim:
  assumes "match_speaker True (strip line) = Some (g1, g2)"
    and "map_of speaker_mapping (strip g1) = Some google_id"
    and "google_id \<noteq> []" and "strip g2 \<noteq> []"
  shows "convert_line speaker_mapping line = Some (google_id @ ''|'' @ strip g2)"
  using assms by (simp add: convert_line_cases)

text \<open>
  Claim C10. With a supplied mapping that binds a label to a value outside R, S, T, U
  the converted script is to hold lines with that value as speaker. For the mapping
  of Alice to X and the script \<open>Alice: Hi there\<close> the loop builds the line
  \<open>X|Hi there\<close>, but the call does not return it: the success text looks every
  value of the mapping up in \<open>GOOGLE_SPEAKERS\<close> and raises \<open>KeyError\<close> for X. By
  \<open>returned_lines_canonical\<close> every converted script that the tool does return has
  one of R, S, T, U in front of the separator of each line.
\<close>

theorem supplied_mapping_key_error:
  "converted_lines [(''Alice'', ''X'')] ''Alice: Hi there'' = [''X|Hi there''] \<and>
   map_of GOOGLE_SPEAKERS ''X'' = None \<and>
   convert_to_google_format ''Alice: Hi there'' [(''Alice'', ''X'')] = Inl (KeyError ''X'')"
  by (simp add: convert_eval)

section \<open>Conversion: labels beyond the fourth\<close>

text \<open>
  Claim C6, as the source has it. The automatic mapping has at most four entries, and
  its keys are the first four labels of the detection loop: a fifth or later label is
  bound to nothing. A line whose label is not one of the first four gives no
  converted line. Every converted line comes from a line of the script whose label is
  one of the first four, and is a key of R, S, T, U, the separator and the text of
  that line, so that nothing stands in the output for a line that was left out. The
  call raises no exception, and its answer is decided by the converted lines alone:
  the error text for a script that is empty, the error text
  \<open>No valid dialogue found\<close> when no line was converted, and the mapping with the
  converted lines otherwise.
\<close>

theorem unmapped_labels_dropped:
  "length (auto_mapping script) \<le> 4 \<and>
   map fst (auto_mapping script) = take 4 (detect_speakers (split_on nl script) []) \<and>
   (\<forall>i. 4 \<le> i \<and> i < length (detect_speakers (split_on nl script) []) \<longrightarrow>
        map_of (auto_mapping script) (detect_speakers (split_on nl script) [] ! i) = None) \<and>
   (\<forall>line. (\<forall>g1 g2. match_speaker True (strip line) = Some (g1, g2) \<longrightarrow>
                     strip g1 \<notin> set (take 4 (detect_speakers (split_on nl script) []))) \<longrightarrow>
           convert_line (auto_mapping script) line = None) \<and>
   (\<forall>out\<in>set (converted_lines (auto_mapping script) script).
      \<exists>line\<in>set (split_on nl script). \<exists>g1 g2 v.
        match_speaker True (strip line) = Some (g1, g2) \<and>
        strip g1 \<in> set (take 4 (detect_speakers (split_on nl script) [])) \<and>
        v \<in> set google_ids \<and> strip g2 \<noteq> [] \<and> out = v @ ''|'' @ strip g2) \<and>
   (\<forall>e. convert_to_google_format script [] \<noteq> Inl e) \<and>
   convert_to_google_format script [] =
     (if script = [] then Inr (Error ''Error: script parameter is required'')
      else if converted_lines (auto_mapping script) script = [] then
        Inr (Error ''Error: Could not convert script. No valid dialogue found.'')
      else Inr (Converted (auto_mapping script)
                  (join [nl] (converted_lines (auto_mapping script) script))))"
proof -
  let ?found = "detect_speakers (split_on nl script) []"
  let ?m = "auto_mapping script"
  have k: "map fst ?m = take 4 ?found" by (rule auto_mapping_keys)
  have 1: "length ?m \<le> 4"
  proof -
    have "length (map fst ?m) \<le> 4" unfolding k by simp
    then show ?thesis by simp
  qed
  have d: "distinct ?found" by (rule detect_distinct) simp
  have 3: "\<forall>i. 4 \<le> i \<and> i < length ?found \<longrightarrow> map_of ?m (?found ! i) = None"
  proof (intro allI impI)
    fix i assume a: "4 \<le> i \<and> i < length ?found"
    have "?found ! i \<notin> set (take 4 ?found)"
    proof
      assume "?found ! i \<in> set (take 4 ?found)"
      then obtain j where j: "j < length (take 4 ?found)" "take 4 ?found ! j = ?found ! i"
        by (auto simp: in_set_conv_nth)
      then have "j < 4" "j < length ?found" "?found ! j = ?found ! i" by simp_all
      with d a have "j = i" by (simp add: nth_eq_iff_index_eq)
      with \<open>j < 4\<close> a show False by simp
    qed
    then show "map_of ?m (?found ! i) = None" by (rule auto_mapping_lookup_None)
  qed
  have 4: "\<forall>line. (\<forall>g1 g2. match_speaker True (strip line) = Some (g1, g2) \<longrightarrow>
                     strip g1 \<notin> set (take 4 ?found)) \<longrightarrow> convert_line ?m line = None"
  proof (intro allI impI)
    fix line
    assume a: "\<forall>g1 g2. match_speaker True (strip line) = Some (g1, g2) \<longrightarrow>
                     strip g1 \<notin> set (take 4 ?found)"
    show "convert_line ?m line = None"
    proof (rule convert_line_unmapped, intro allI impI)
      fix g1 g2 assume "match_speaker True (strip line) = Some (g1, g2)"
      with a have "strip g1 \<notin> set (take 4 ?found)" by blast
      then show "map_of ?m (strip g1) = None" by (rule auto_mapping_lookup_None)
    qed
  qed
  have 5: "\<forall>out\<in>set (converted_lines ?m script).
      \<exists>line\<in>set (split_on nl script). \<exists>g1 g2 v.
        match_speaker True (strip line) = Some (g1, g2) \<and>
        strip g1 \<in> set (take 4 ?found) \<and>
        v \<in> set google_ids \<and> strip g2 \<noteq> [] \<and> out = v @ ''|'' @ strip g2"
  proof
    fix out assume "out \<in> set (converted_lines ?m script)"
    then obtain line where l: "line \<in> set (split_on nl script)" "convert_line ?m line = Some out"
      unfolding converted_lines_def by (blast dest: map_filter_set)
    from convert_line_shape[OF l(2)] obtain g1 g2 v where
      s: "match_speaker True (strip line) = Some (g1, g2)" "map_of ?m (strip g1) = Some v"
         "strip g2 \<noteq> []" "out = v @ ''|'' @ strip g2"
      by blast
    from s(2) have v: "v \<in> set google_ids" by (rule auto_mapping_lookup_id)
    have "strip g1 \<in> set (take 4 ?found)"
    proof (rule ccontr)
      assume "strip g1 \<notin> set (take 4 ?found)"
      then have "map_of ?m (strip g1) = None" by (rule auto_mapping_lookup_None)
      with s(2) show False by simp
    qed
    with l(1) s v show "\<exists>line\<in>set (split_on nl script). \<exists>g1 g2 v.
        match_speaker True (strip line) = Some (g1, g2) \<and>
        strip g1 \<in> set (take 4 ?found) \<and>
        v \<in> set google_ids \<and> strip g2 \<noteq> [] \<and> out = v @ ''|'' @ strip g2"
      by blast
  qed
  have 6: "\<forall>e. convert_to_google_format script [] \<noteq> Inl e"
    by (simp add: auto_convert_no_raise)
  have 7: "convert_to_google_format script [] =
     (if script = [] then Inr (Error ''Error: script parameter is required'')
      else if converted_lines ?m script = [] then
        Inr (Error ''Error: Could not convert script. No valid dialogue found.'')
      else Inr (Converted ?m (join [nl] (converted_lines ?m script))))"
    by (rule auto_convert_answer)
  from 1 k 3 4 5 6 7 show ?thesis by (intro conjI)
qed

theorem unmapped_labels_dropped_witness:
  "detect_speakers
     (split_on nl (''A: 1'' @ [nl] @ ''B: 2'' @ [nl] @ ''C: 3'' @ [nl] @ ''D: 4'' @ [nl] @
                   ''E: 5'' @ [nl] @ ''A: 6'')) [] = [''A'', ''B'', ''C'', ''D'', ''E''] \<and>
   auto_mapping (''A: 1'' @ [nl] @ ''B: 2'' @ [nl] @ ''C: 3'' @ [nl] @ ''D: 4'' @ [nl] @
                 ''E: 5'' @ [nl] @ ''A: 6'') =
     [(''A'', ''R''), (''B'', ''S''), (''C'', ''T''), (''D'', ''U'')] \<and>
   convert_line (auto_mapping (''A: 1'' @ [nl] @ ''B: 2'' @ [nl] @ ''C: 3'' @ [nl] @ ''D: 4'' @
                               [nl] @ ''E: 5'' @ [nl] @ ''A: 6'')) ''E: 5'' = None \<and>
   convert_to_google_format (''A: 1'' @ [nl] @ ''B: 2'' @ [nl] @ ''C: 3'' @ [nl] @ ''D: 4'' @
                             [nl] @ ''E: 5'' @ [nl] @ ''A: 6'') [] =
     Inr (Converted [(''A'', ''R''), (''B'', ''S''), (''C'', ''T''), (''D'', ''U'')]
            (''R|1'' @ [nl] @ ''S|2'' @ [nl] @ ''T|3'' @ [nl] @ ''U|4'' @ [nl] @ ''R|6''))"
proof -
  let ?s = "''A: 1'' @ [nl] @ ''B: 2'' @ [nl] @ ''C: 3'' @ [nl] @ ''D: 4'' @ [nl] @
            ''E: 5'' @ [nl] @ ''A: 6''"
  have f: "detect_speakers (split_on nl ?s) [] = [''A'', ''B'', ''C'', ''D'', ''E'']"
    by (simp add: convert_eval)
  have m: "match_speaker True (strip ''E: 5'') = Some (''E'', ''5'')"
    by (simp add: convert_eval)
  have e: "strip ''E'' = ''E''" by (simp add: strip_def isspace_def)
  have h: "\<forall>g1 g2. match_speaker True (strip ''E: 5'') = Some (g1, g2) \<longrightarrow>
             strip g1 \<notin> set (take 4 (detect_speakers (split_on nl ?s) []))"
    unfolding f m by (simp add: e)
  from unmapped_labels_dropped [of ?s]
  have "\<forall>line. (\<forall>g1 g2. match_speaker True (strip line) = Some (g1, g2) \<longrightarrow>
                     strip g1 \<notin> set (take 4 (detect_speakers (split_on nl ?s) []))) \<longrightarrow>
           convert_line (auto_mapping ?s) line = None"
    by (elim conjE)
  with h have c: "convert_line (auto_mapping ?s) ''E: 5'' = None" by blast
  have a: "auto_mapping ?s = [(''A'', ''R''), (''B'', ''S''), (''C'', ''T''), (''D'', ''U'')]"
    by (simp add: convert_eval)
  have t: "convert_to_google_format ?s [] =
     Inr (Converted [(''A'', ''R''), (''B'', ''S''), (''C'', ''T''), (''D'', ''U'')]
            (''R|1'' @ [nl] @ ''S|2'' @ [nl] @ ''T|3'' @ [nl] @ ''U|4'' @ [nl] @ ''R|6''))"
    by (simp add: convert_eval)
  from f a c t show ?thesis by (intro conjI)
qed

text \<open>
  A script of five labels in which the lines of the first four have no text: the line
  of the fifth label is left out, no line is converted, and the answer of the tool is
  the error text.
\<close>

theorem all_mapped_lines_empty_counterexample:
  "detect_speakers
     (split_on nl (''A:'' @ [nl] @ ''B:'' @ [nl] @ ''C:'' @ [nl] @ ''D:'' @ [nl] @ ''E: hi'')) []
     = [''A'', ''B'', ''C'', ''D'', ''E''] \<and>
   convert_to_google_format
     (''A:'' @ [nl] @ ''B:'' @ [nl] @ ''C:'' @ [nl] @ ''D:'' @ [nl] @ ''E: hi'') []
     = Inr (Error ''Error: Could not convert script. No valid dialogue found.'')"
  by (simp add: convert_eval)

section \<open>Turn generation: determinism\<close>

text \<open>
  Claim C9. Two calls with the same topic, format name, duration and context give the
  same result. Whenever turns are returned they are the opening, then for each
  \<open>i\<close> below the number of iterations the turns of iteration \<open>i\<close>, which depend on
  the topic, the speakers, the context and \<open>i\<close> only, then the closing.
\<close>

theorem generate_deterministic:
  assumes "topic' = topic" and "format_type' = format_type"
    and "duration_minutes' = duration_minutes" and "additional_context' = additional_context"
  shows "generate_dialogue_turns topic' format_type' duration_minutes' additional_context' =
         generate_dialogue_turns topic format_type duration_minutes additional_context \<and>
         (\<forall>turns. generate_dialogue_turns topic format_type duration_minutes additional_context
                    = Inr turns \<longrightarrow>
            turns = opening_turns topic format_type (speakers (resolve_format format_type)) @
                    concat (map (iteration_turns topic (speakers (resolve_format format_type))
                                   additional_context)
                                [0..<nat (min (duration_minutes * 2 - 4) 10)]) @
                    closing_turns topic (speakers (resolve_format format_type)))"
  using assms generate_result_form by blast

theorem generate_deterministic_witness:
  "''A'' @ ''I'' = ''AI'' \<and> (2::int) + 2 = 4 \<and>
   generate_dialogue_turns (''A'' @ ''I'') ''debate'' (2 + 2) None =
   generate_dialogue_turns ''AI'' ''debate'' 4 None \<and>
   length (concat (map (iteration_turns ''AI'' (speakers (resolve_format ''debate'')) None)
                       [0..<nat (min (4 * 2 - 4) 10)])) = 10"
proof -
  have h1: "''A'' @ ''I'' = ''AI''" by simp
  have h3: "(2::int) + 2 = 4" by simp
  from generate_deterministic [OF h1 refl h3 refl, of "''debate''" None]
  have e: "generate_dialogue_turns (''A'' @ ''I'') ''debate'' (2 + 2) None =
           generate_dialogue_turns ''AI'' ''debate'' 4 None"
    by (elim conjE)
  have l: "length (concat (map (iteration_turns ''AI'' (speakers (resolve_format ''debate'')) None)
                       [0..<nat (min (4 * 2 - 4) 10)])) = 10"
    by (simp add: iteration_turns_def generate_eval)
  from h1 h3 e l show ?thesis by (intro conjI)
qed

end
